theory Spec2Isabelle
  imports Complex_Main "HOL-Library.Word"
begin

text \<open>
  A model of the connection handling, the proxy relays, the start-up sequence and
  the version comparison of msh (Minecraft Server Hibernation), written from the
  Go sources. Each goroutine is a function from the shared statistics record and
  the outcomes of the calls it makes (network reads, calls into packages that are
  not part of the files at hand) to the list of actions it performs, in program
  order, and the statistics record it leaves behind. Within one run a goroutine
  reads the statistics record as it was handed over, or as a call it made has
  left it. Calls that only write to the log (\<^verbatim>\<open>errco.NewLogln\<close>,
  \<^verbatim>\<open>logMsh.Log\<close>) are not recorded as actions.
\<close>

section \<open>Shared data (packages errco, servstats, config)\<close>

type_synonym byte = "8 word"

text \<open>
  The request kinds \<^verbatim>\<open>errco.CLIENT_REQ_*\<close> and the server states
  \<^verbatim>\<open>errco.SERVER_STATUS_*\<close>. Package errco is not among the files at hand; the
  constants are the ones the handler and the test name.
\<close>

datatype reqType =
    CLIENT_REQ_UNKN
  | CLIENT_REQ_INFO
  | CLIENT_REQ_JOIN
  | CLIENT_REQ_FOREIGN

datatype serverStatus =
    SERVER_STATUS_OFFLINE
  | SERVER_STATUS_STARTING
  | SERVER_STATUS_ONLINE
  | SERVER_STATUS_STOPPING
  | SERVER_STATUS_SUSPENDED

text \<open>
  \<^verbatim>\<open>*errco.MshLog\<close>: of an error value the handler reads the format string
  \<^verbatim>\<open>Mex\<close> and its arguments \<^verbatim>\<open>Arg\<close>. A nil pointer is \<open>None\<close>.
\<close>

record MshLog =
  Mex :: string
  Arg :: "string list"

text \<open>
  \<^verbatim>\<open>servstats.Stats\<close>, the record all goroutines share. \<^verbatim>\<open>ConnCount\<close> is a Go
  \<^verbatim>\<open>int\<close>, modelled without a bound (the number of live relays stays far
  below \<open>2^63\<close>); the byte counters are \<^verbatim>\<open>float64\<close>, modelled by the real
  numbers they denote (sums of byte counts are exact below \<open>2^53\<close>). The mutex
  \<^verbatim>\<open>M\<close> shows as the actions \<open>LockM\<close> and \<open>UnlockM\<close> of a goroutine.
\<close>

record serverStats =
  Status :: serverStatus
  Suspended :: bool
  MajorError :: "MshLog option"
  ConnCount :: int
  LoadProgress :: string
  BytesToClients :: real
  BytesToServer :: real

text \<open>
  The settings read from \<^verbatim>\<open>config.ConfigRuntime.Msh\<close>, together with the debug
  level \<^verbatim>\<open>errco.DebugLvl\<close> and the constant \<^verbatim>\<open>errco.LVL_3\<close> it is compared
  with (the value of that constant is declared in package errco and enters as a
  parameter).
\<close>

record config =
  InfoSuspended :: string
  InfoHibernation :: string
  InfoStarting :: string
  ShowInternetUsage :: bool
  SuspendAllow :: bool
  EnableQuery :: bool
  DebugLvl :: int
  LVL_3 :: int

text \<open>
  What a goroutine does, in program order. \<open>GoForwardTCP d r\<close> is the statement
  \<^verbatim>\<open>go forwardTCP(_, _, d, r)\<close>; the relay actions are those of one call of
  \<^verbatim>\<open>forwardTCP\<close>; the last group are the steps of \<^verbatim>\<open>main\<close>.
\<close>

datatype event =
    ClientWrite "byte list"
  | ClientClose
  | CallGetPing
  | CallWarmMS
  | DialServer
  | ServerWrite "byte list"
  | GoForwardTCP bool reqType
  | ConnCountInc
  | ConnCountDec
  | CallFreezeMSSchedule
  | SourceRead
  | DestinationWrite nat
  | DestinationClose
  | SourceClose
  | LockM
  | UnlockM
  | AddBytesToClients nat
  | AddBytesToServer nat
  | ResetBytesToClients
  | ResetBytesToServer
  | CallLoadConfig
  | CallAutoTerminate
  | GoMshMgr
  | ReceiveReqSent
  | GoGetInput
  | GoHandlerQuery
  | Listen
  | Accept
  | GoHandlerClientConn

section \<open>The connection handler (package conn)\<close>

text \<open>
  The outcomes of the calls one run of \<^verbatim>\<open>HandlerClientConn\<close> makes. The functions
  \<^verbatim>\<open>getReqType\<close>, \<^verbatim>\<open>getPing\<close>, \<^verbatim>\<open>buildMessage\<close>, \<^verbatim>\<open>IsWhitelist\<close> and
  \<^verbatim>\<open>WarmMS\<close> are defined in files that are not at hand, so their results enter as
  parameters:
  \<^item> \<open>RemoteAddr\<close>: the peer address \<^verbatim>\<open>clientConn.RemoteAddr().String()\<close>;
  \<^item> \<open>getReqType\<close>: the request packet, the request kind, and whether the
    returned \<^verbatim>\<open>logMsh\<close> is non-nil;
  \<^item> \<open>getPing_failed\<close>: whether \<^verbatim>\<open>getPing\<close> returns a non-nil \<^verbatim>\<open>logMsh\<close>;
  \<^item> \<open>IsWhitelist_denied p a\<close>: whether \<^verbatim>\<open>IsWhitelist(p, a)\<close> returns a non-nil
    \<^verbatim>\<open>logMsh\<close>, that is, neither the packet nor the address is whitelisted;
  \<^item> \<open>WarmMS\<close>: whether \<^verbatim>\<open>servctrl.WarmMS()\<close> returns a non-nil \<^verbatim>\<open>logMsh\<close>, and
    the statistics record it leaves;
  \<^item> \<open>Dial_failed\<close>: whether \<^verbatim>\<open>net.Dial\<close> to the server returns an error;
  \<^item> \<open>buildMessage\<close>: the reply packet for a request kind and a text;
  \<^item> \<open>Sprintf\<close>: \<^verbatim>\<open>fmt.Sprintf\<close> on a format string and its arguments.
\<close>

record environment = config +
  RemoteAddr :: string
  getReqType :: "byte list \<times> reqType \<times> bool"
  getPing_failed :: bool
  IsWhitelist_denied :: "byte list \<Rightarrow> string \<Rightarrow> bool"
  WarmMS :: "serverStats \<Rightarrow> bool \<times> serverStats"
  Dial_failed :: bool
  buildMessage :: "reqType \<Rightarrow> string \<Rightarrow> byte list"
  Sprintf :: "string \<Rightarrow> string list \<Rightarrow> string"

text \<open>
  \<^verbatim>\<open>strings.LastIndex(s, ":")\<close> for a one-character separator: the index of its
  last occurrence, \<open>-1\<close> when there is none.
\<close>

fun LastIndex :: "string \<Rightarrow> char \<Rightarrow> int" where
  "LastIndex [] sep = - 1"
| "LastIndex (c # cs) sep =
     (let r = LastIndex cs sep
      in if 0 \<le> r then r + 1 else if c = sep then 0 else - 1)"

text \<open>
  \<^verbatim>\<open>openProxy\<close>. The two relays are started with \<^verbatim>\<open>go\<close>; what they do is
  \<open>forwardTCP\<close> below. On a failed dial the function returns after the
  write: there is no \<^verbatim>\<open>Close\<close> on this path.
\<close>

definition openProxy :: "environment \<Rightarrow> byte list \<Rightarrow> reqType \<Rightarrow> event list" where
  "openProxy env serverInitPacket req =
     (if Dial_failed env then
        [DialServer,
         ClientWrite (buildMessage env CLIENT_REQ_JOIN
           (''can'' @ [CHR 0x27] @ ''t connect to server... check if minecraft server is running and set the correct ServPort''))]
      else
        [DialServer,
         ServerWrite serverInitPacket,
         GoForwardTCP False req,
         GoForwardTCP True req])"

text \<open>
  \<^verbatim>\<open>HandlerClientConn\<close>. The result is \<open>None\<close> when the goroutine panics (the
  slice \<^verbatim>\<open>[:li]\<close> with \<^verbatim>\<open>li = -1\<close>, for a peer address without a colon; the
  address of a TCP peer, host and port, always has one), else
  the actions in program order and the statistics record at return. A deferred
  \<^verbatim>\<open>clientConn.Close()\<close> runs when the function returns, so it is the last action
  of the branch that registered it. Where \<^verbatim>\<open>getPing\<close> fails the function only
  logs and returns, which gives the same actions as when it succeeds.
\<close>

definition HandlerClientConn ::
  "environment \<Rightarrow> serverStats \<Rightarrow> (event list \<times> serverStats) option" where
  "HandlerClientConn env stats =
     (let li = LastIndex (RemoteAddr env) (CHR '':'')
      in if li < 0 then None
         else
           (let clientAddress = take (nat li) (RemoteAddr env)
            in case getReqType env of (reqPacket, reqType, logMsh) \<Rightarrow>
              if logMsh then Some ([], stats)
              else
                (case MajorError stats of
                   Some majorError \<Rightarrow>
                     Some ([ClientWrite (buildMessage env reqType
                                (Sprintf env (Mex majorError) (Arg majorError)))]
                           @ (if reqType = CLIENT_REQ_INFO then [CallGetPing] else [])
                           @ [ClientClose],
                           stats)
                 | None \<Rightarrow>
                     (case reqType of
                        CLIENT_REQ_INFO \<Rightarrow>
                          if Status stats \<noteq> SERVER_STATUS_ONLINE \<or> Suspended stats then
                            Some ([ClientWrite (buildMessage env reqType
                                     (if Status stats = SERVER_STATUS_SUSPENDED \<or> Suspended stats
                                        then InfoSuspended env
                                      else if Status stats = SERVER_STATUS_OFFLINE
                                        then InfoHibernation env
                                      else if Status stats = SERVER_STATUS_STARTING
                                        then InfoStarting env
                                      else if Status stats = SERVER_STATUS_STOPPING
                                        then ''server is stopping...'' @ [CHR 0x0A] @ ''refresh the page''
                                      else InfoHibernation env)),
                                   CallGetPing,
                                   ClientClose],
                                  stats)
                          else Some (openProxy env reqPacket CLIENT_REQ_INFO, stats)
                      | CLIENT_REQ_JOIN \<Rightarrow>
                          if IsWhitelist_denied env reqPacket clientAddress then
                            Some ([ClientWrite (buildMessage env reqType
                                     (''You don'' @ [CHR 0x27] @ ''t have permission to warm this server'')),
                                   ClientClose],
                                  stats)
                          else if Status stats = SERVER_STATUS_SUSPENDED \<or> Suspended stats then
                            (case WarmMS env stats of (warmFailed, stats') \<Rightarrow>
                               if warmFailed then
                                 Some ([CallWarmMS,
                                        ClientWrite (buildMessage env reqType
                                          ''An error occurred while warming the server: check the msh log''),
                                        ClientClose],
                                       stats')
                               else
                                 Some (CallWarmMS # openProxy env reqPacket CLIENT_REQ_JOIN, stats'))
                          else if Status stats \<noteq> SERVER_STATUS_ONLINE then
                            (case WarmMS env stats of (warmFailed, stats') \<Rightarrow>
                               if warmFailed then
                                 Some ([CallWarmMS,
                                        ClientWrite (buildMessage env reqType
                                          ''An error occurred while warming the server: check the msh log''),
                                        ClientClose],
                                       stats')
                               else
                                 Some ([CallWarmMS,
                                        ClientWrite (buildMessage env reqType
                                          (''Server start command issued. Please wait... ''
                                             @ LoadProgress stats')),
                                        ClientClose],
                                       stats'))
                          else
                            (case WarmMS env stats of (warmFailed, stats') \<Rightarrow>
                               if warmFailed then
                                 Some ([CallWarmMS,
                                        ClientWrite (buildMessage env reqType
                                          ''An error occurred while warming the server: check the msh log''),
                                        ClientClose],
                                       stats')
                               else
                                 Some (CallWarmMS # openProxy env reqPacket CLIENT_REQ_JOIN, stats'))
                      | CLIENT_REQ_FOREIGN \<Rightarrow>
                          if Status stats = SERVER_STATUS_ONLINE then
                            Some (openProxy env reqPacket CLIENT_REQ_FOREIGN, stats)
                          else Some ([ClientClose], stats)
                      | CLIENT_REQ_UNKN \<Rightarrow>
                          Some ([ClientWrite (buildMessage env reqType ''Client request unknown'')],
                                stats)))))"

section \<open>The proxy relays (package conn)\<close>

text \<open>
  One iteration of the loop of \<^verbatim>\<open>forwardTCP\<close> is decided by the network: the read
  from the source fails, or it yields \<open>dataLen\<close> bytes and the write to the
  destination fails, or both succeed. A relay is run against a script of such
  outcomes. The deadline updates at the head of an iteration are not recorded.
\<close>

datatype iteration =
    ReadFails
  | WriteFails nat
  | Relays nat

text \<open>
  The telemetry block at the end of an iteration (the \<^verbatim>\<open>if\<close> on
  \<^verbatim>\<open>ShowInternetUsage\<close> and \<^verbatim>\<open>DebugLvl\<close>), for \<open>dataLen\<close> relayed bytes.
\<close>

definition countBytes ::
  "'a config_scheme \<Rightarrow> bool \<Rightarrow> nat \<Rightarrow> serverStats \<Rightarrow> event list \<times> serverStats" where
  "countBytes cfg isServerToClient dataLen stats =
     (if ShowInternetUsage cfg \<and> LVL_3 cfg \<le> DebugLvl cfg then
        (if isServerToClient then
           ([LockM, AddBytesToClients dataLen, UnlockM],
            stats\<lparr>BytesToClients := BytesToClients stats + real dataLen\<rparr>)
         else
           ([LockM, AddBytesToServer dataLen, UnlockM],
            stats\<lparr>BytesToServer := BytesToServer stats + real dataLen\<rparr>))
      else ([], stats))"

text \<open>
  The \<^verbatim>\<open>for\<close> loop of \<^verbatim>\<open>forwardTCP\<close>. The third component of the result tells
  whether the loop has left through one of its two \<^verbatim>\<open>return\<close> statements; it is
  \<open>False\<close> when the script ends with the relay still forwarding.
\<close>

fun relayLoop ::
  "'a config_scheme \<Rightarrow> bool \<Rightarrow> iteration list \<Rightarrow> serverStats
     \<Rightarrow> event list \<times> serverStats \<times> bool" where
  "relayLoop cfg isServerToClient [] stats = ([], stats, False)"
| "relayLoop cfg isServerToClient (ReadFails # rest) stats =
     ([SourceRead, DestinationClose, SourceClose], stats, True)"
| "relayLoop cfg isServerToClient (WriteFails dataLen # rest) stats =
     ([SourceRead, DestinationWrite dataLen, DestinationClose, SourceClose], stats, True)"
| "relayLoop cfg isServerToClient (Relays dataLen # rest) stats =
     (case countBytes cfg isServerToClient dataLen stats of
        (counted, stats1) \<Rightarrow>
          (case relayLoop cfg isServerToClient rest stats1 of
             (later, stats2, returned) \<Rightarrow>
               (SourceRead # DestinationWrite dataLen # counted @ later, stats2, returned)))"

text \<open>
  \<^verbatim>\<open>forwardTCP\<close>, one goroutine run on its own: the actions, the statistics
  record, and whether the function has returned. The deferred function (the
  decrement and \<^verbatim>\<open>FreezeMSSchedule\<close>) runs at the return.
\<close>

definition forwardTCP ::
  "'a config_scheme \<Rightarrow> bool \<Rightarrow> reqType \<Rightarrow> iteration list \<Rightarrow> serverStats
     \<Rightarrow> event list \<times> serverStats \<times> bool" where
  "forwardTCP cfg isServerToClient req script stats =
     (if isServerToClient \<and> req = CLIENT_REQ_JOIN then
        (case relayLoop cfg isServerToClient script (stats\<lparr>ConnCount := ConnCount stats + 1\<rparr>) of
           (body, stats1, returned) \<Rightarrow>
             if returned then
               (ConnCountInc # body @ [ConnCountDec, CallFreezeMSSchedule],
                stats1\<lparr>ConnCount := ConnCount stats1 - 1\<rparr>,
                True)
             else (ConnCountInc # body, stats1, False))
      else relayLoop cfg isServerToClient script stats)"

text \<open>
  One tick of the loop of \<^verbatim>\<open>printDataUsage\<close> (the loop itself never ends).
\<close>

definition printDataUsage_tick ::
  "'a config_scheme \<Rightarrow> serverStats \<Rightarrow> event list \<times> serverStats" where
  "printDataUsage_tick cfg stats =
     (if \<not> ShowInternetUsage cfg then ([], stats)
      else if BytesToClients stats \<noteq> 0 \<or> BytesToServer stats \<noteq> 0 then
        ([LockM, ResetBytesToClients, ResetBytesToServer, UnlockM],
         stats\<lparr>BytesToClients := 0, BytesToServer := 0\<rparr>)
      else ([], stats))"

text \<open>
  Which actions write \<^verbatim>\<open>ConnCount\<close> or a byte counter, and whether every such
  write of a goroutine's actions lies between a \<^verbatim>\<open>M.Lock()\<close> and the following
  \<^verbatim>\<open>M.Unlock()\<close> of that goroutine. \<open>held\<close> says whether the goroutine holds
  the mutex at the start.
\<close>

fun writesCounter :: "event \<Rightarrow> bool" where
  "writesCounter ConnCountInc = True"
| "writesCounter ConnCountDec = True"
| "writesCounter (AddBytesToClients n) = True"
| "writesCounter (AddBytesToServer n) = True"
| "writesCounter ResetBytesToClients = True"
| "writesCounter ResetBytesToServer = True"
| "writesCounter e = False"

fun writesByteCounter :: "event \<Rightarrow> bool" where
  "writesByteCounter (AddBytesToClients n) = True"
| "writesByteCounter (AddBytesToServer n) = True"
| "writesByteCounter ResetBytesToClients = True"
| "writesByteCounter ResetBytesToServer = True"
| "writesByteCounter e = False"

fun underM :: "(event \<Rightarrow> bool) \<Rightarrow> bool \<Rightarrow> event list \<Rightarrow> bool" where
  "underM writes held [] = True"
| "underM writes held (e # es) =
     (if e = LockM then underM writes True es
      else if e = UnlockM then underM writes False es
      else if writes e then held \<and> underM writes held es
      else underM writes held es)"

subsection \<open>Relays running side by side\<close>

text \<open>
  Several relays run at once on the one shared \<^verbatim>\<open>ConnCount\<close>. The statements
  \<^verbatim>\<open>servstats.Stats.ConnCount++\<close> and \<^verbatim>\<open>servstats.Stats.ConnCount--\<close> of
  \<^verbatim>\<open>forwardTCP\<close> are plain reads followed by plain writes of the field: the relay
  takes no lock around them (the mutex is taken only around the byte counters),
  so another goroutine can run between the read and the write. A relay is at one
  of these points: before the test at its entry; having read the counter for the
  increment; in its loop; having read the counter for the deferred decrement;
  returned.
\<close>

datatype relayPoint =
    AtEntry
  | IncrementRead int
  | InLoop
  | DecrementRead int
  | Returned

text \<open>
  The next step of a relay with direction \<open>isServerToClient\<close> and request kind
  \<open>req\<close>, on the shared counter. The step out of \<open>InLoop\<close> is taken when a
  read or write of the relay fails.
\<close>

fun relayStep :: "bool \<Rightarrow> reqType \<Rightarrow> relayPoint \<Rightarrow> int \<Rightarrow> relayPoint \<times> int" where
  "relayStep isServerToClient req AtEntry connCount =
     (if isServerToClient \<and> req = CLIENT_REQ_JOIN then (IncrementRead connCount, connCount)
      else (InLoop, connCount))"
| "relayStep isServerToClient req (IncrementRead v) connCount = (InLoop, v + 1)"
| "relayStep isServerToClient req InLoop connCount =
     (if isServerToClient \<and> req = CLIENT_REQ_JOIN then (DecrementRead connCount, connCount)
      else (Returned, connCount))"
| "relayStep isServerToClient req (DecrementRead v) connCount = (Returned, v - 1)"
| "relayStep isServerToClient req Returned connCount = (Returned, connCount)"

text \<open>
  The running relays with the counter they share; \<open>schedule i\<close> lets relay
  number \<open>i\<close> take its next step, and \<open>run\<close> follows a list of such choices.
  \<open>proxies\<close> is the state after \<^verbatim>\<open>openProxy\<close> has started its two relays for each
  of the given requests, with the counter at its initial value \<open>0\<close>.
\<close>

record relays =
  connCount :: int
  points :: "(bool \<times> reqType \<times> relayPoint) list"

definition schedule :: "nat \<Rightarrow> relays \<Rightarrow> relays" where
  "schedule i sys =
     (if i < length (points sys) then
        (case points sys ! i of
           (isServerToClient, req, point) \<Rightarrow>
             (case relayStep isServerToClient req point (connCount sys) of
                (point', connCount') \<Rightarrow>
                  \<lparr>connCount = connCount',
                   points = (points sys)[i := (isServerToClient, req, point')]\<rparr>))
      else sys)"

fun run :: "nat list \<Rightarrow> relays \<Rightarrow> relays" where
  "run [] sys = sys"
| "run (i # rest) sys = run rest (schedule i sys)"

definition proxies :: "reqType list \<Rightarrow> relays" where
  "proxies reqs =
     \<lparr>connCount = 0,
      points = concat (map (\<lambda>req. [(False, req, AtEntry), (True, req, AtEntry)]) reqs)\<rparr>"

text \<open>
  For comparison, the same relays with each read-modify-write of the counter
  done in one piece, as it would be under the mutex: \<open>scheduleAtomic i\<close> lets
  relay \<open>i\<close> take its step and, if that step was the read of an increment or
  decrement, the write that belongs to it as well. \<open>settled\<close> says that the
  counter equals the number of server-to-client JOIN relays in their loop and
  that no relay stands between a read and its write.
\<close>

fun countedInLoop :: "bool \<times> reqType \<times> relayPoint \<Rightarrow> bool" where
  "countedInLoop (isServerToClient, req, point) =
     (isServerToClient \<and> req = CLIENT_REQ_JOIN \<and> point = InLoop)"

fun betweenReadAndWrite :: "bool \<times> reqType \<times> relayPoint \<Rightarrow> bool" where
  "betweenReadAndWrite (isServerToClient, req, IncrementRead v) = True"
| "betweenReadAndWrite (isServerToClient, req, DecrementRead v) = True"
| "betweenReadAndWrite (isServerToClient, req, point) = False"

definition scheduleAtomic :: "nat \<Rightarrow> relays \<Rightarrow> relays" where
  "scheduleAtomic i sys =
     (let sys1 = schedule i sys
      in if i < length (points sys1) \<and> betweenReadAndWrite (points sys1 ! i)
         then schedule i sys1 else sys1)"

fun runAtomic :: "nat list \<Rightarrow> relays \<Rightarrow> relays" where
  "runAtomic [] sys = sys"
| "runAtomic (i # rest) sys = runAtomic rest (scheduleAtomic i sys)"

definition settled :: "relays \<Rightarrow> bool" where
  "settled sys =
     (connCount sys = int (length (filter countedInLoop (points sys)))
      \<and> list_all (\<lambda>r. \<not> betweenReadAndWrite r) (points sys))"

section \<open>Start-up (package main)\<close>

text \<open>
  The outcomes \<^verbatim>\<open>main\<close> meets: whether \<^verbatim>\<open>LoadConfig\<close> returns an error, whether
  a value arrives on the channel \<^verbatim>\<open>ReqSent\<close> (\<^verbatim>\<open>main\<close> blocks until it does),
  whether \<^verbatim>\<open>net.Listen\<close> returns an error, and for each turn of the accept loop
  whether \<^verbatim>\<open>Accept\<close> returns an error.
\<close>

record startup = config +
  LoadConfig_failed :: bool
  ReqSent_arrives :: bool
  Listen_failed :: bool
  accepts :: "bool list"

text \<open>
  The accept loop: a failed \<^verbatim>\<open>Accept\<close> is logged and the loop continues, a
  successful one starts a handler goroutine.
\<close>

fun acceptLoop :: "bool list \<Rightarrow> event list" where
  "acceptLoop [] = []"
| "acceptLoop (acceptFailed # rest) =
     (if acceptFailed then Accept # acceptLoop rest
      else Accept # GoHandlerClientConn # acceptLoop rest)"

text \<open>
  Modelled from the spec: \<^verbatim>\<open>progmgr.AutoTerminate\<close> is not among the files at
  hand; by the error handling section of the specification a configuration or
  bind error aborts the process, so \<^verbatim>\<open>main\<close> does nothing after the call.

  \<^verbatim>\<open>main\<close>, as the list of its steps. The return value of the start-up
  \<^verbatim>\<open>WarmMS\<close> is only logged.
\<close>

definition main :: "startup \<Rightarrow> event list" where
  "main st =
     (if LoadConfig_failed st then [CallLoadConfig, CallAutoTerminate]
      else if \<not> ReqSent_arrives st then [CallLoadConfig, GoMshMgr]
      else
        [CallLoadConfig, GoMshMgr, ReceiveReqSent]
        @ (if SuspendAllow st then [CallWarmMS] else [])
        @ [GoGetInput]
        @ (if EnableQuery st then [GoHandlerQuery] else [])
        @ [Listen]
        @ (if Listen_failed st then [CallAutoTerminate] else acceptLoop (accepts st)))"

text \<open>
  The actions by which a client is present: a connection accepted, a handler
  started for it.
\<close>

fun clientEvent :: "event \<Rightarrow> bool" where
  "clientEvent Accept = True"
| "clientEvent GoHandlerClientConn = True"
| "clientEvent e = False"

section \<open>The update check (package progmgr)\<close>

text \<open>
  \<^verbatim>\<open>compareVersions\<close> splits both version strings at the dots with Go's
  \<^verbatim>\<open>strings.Split\<close> and parses the first three components with
  \<^verbatim>\<open>strconv.Atoi\<close>. Both are functions of the Go standard library; they are
  written out here as the Go documentation and sources define them.

  \<^verbatim>\<open>strings.Split(s, ".")\<close> returns the substrings between the separators, one more
  than the number of separators, so its result is never empty: the empty string
  gives the one-element list holding the empty string.
\<close>

fun Split :: "string \<Rightarrow> char \<Rightarrow> string list" where
  "Split [] sep = [[]]"
| "Split (c # cs) sep =
     (if c = sep then [] # Split cs sep
      else (case Split cs sep of
              p # ps \<Rightarrow> (c # p) # ps
            | [] \<Rightarrow> [[c]]))"

text \<open>
  \<^verbatim>\<open>strconv.Atoi\<close>: an optional sign, then one or more decimal digits and nothing
  else; a value outside the range of \<^verbatim>\<open>int\<close> is an error as well. The width of
  \<^verbatim>\<open>int\<close> depends on the platform (\<^verbatim>\<open>strconv.IntSize\<close>, 32 or 64) and enters as
  the parameter \<open>intSize\<close>. \<open>None\<close> is the error return.
\<close>

definition isDigit :: "char \<Rightarrow> bool" where
  "isDigit c = (48 \<le> (of_char c :: nat) \<and> (of_char c :: nat) \<le> 57)"

fun digitsValue :: "int \<Rightarrow> string \<Rightarrow> int" where
  "digitsValue n [] = n"
| "digitsValue n (ch # rest) = digitsValue (n * 10 + (of_char ch - 48)) rest"

definition Atoi :: "nat \<Rightarrow> string \<Rightarrow> int option" where
  "Atoi intSize s =
     (case s of
        [] \<Rightarrow> None
      | s0 # rest \<Rightarrow>
          (let neg = (s0 = CHR ''-'');
               ds = (if s0 = CHR ''-'' \<or> s0 = CHR ''+'' then rest else s)
           in if ds = [] \<or> \<not> list_all isDigit ds then None
              else (let n = digitsValue 0 ds;
                        v = (if neg then - n else n)
                    in if v < - (2 ^ (intSize - 1)) \<or> 2 ^ (intSize - 1) - 1 < v then None
                       else Some v)))"

text \<open>
  The error values \<^verbatim>\<open>compareVersions\<close> builds with \<^verbatim>\<open>fmt.Errorf\<close>: the
  format error of the length check, and the component that failed to parse.
\<close>

datatype version_error =
    invalid_version_format
  | invalid_version_component string

text \<open>
  The component at index \<open>i\<close> as one iteration reads it: parsed when the index
  is in range, \<open>0\<close> (Go's zero value of \<^verbatim>\<open>v1Comp\<close>) when the component is missing.
\<close>

definition versionComponent :: "nat \<Rightarrow> string list \<Rightarrow> nat \<Rightarrow> int option" where
  "versionComponent intSize parts i =
     (if i < length parts then Atoi intSize (parts ! i) else Some 0)"

text \<open>
  The loop \<^verbatim>\<open>for i := 0; i < 3; i++\<close> of \<^verbatim>\<open>compareVersions\<close>, from index \<open>i\<close> on.
  The result is Go's triple (isOutdated, isNewer, error).
\<close>

function compareLoop ::
  "nat \<Rightarrow> nat \<Rightarrow> string list \<Rightarrow> string list \<Rightarrow> bool \<times> bool \<times> version_error option" where
  "compareLoop intSize i v1Parts v2Parts =
     (if i < 3 then
        (case versionComponent intSize v1Parts i of
           None \<Rightarrow> (False, False, Some (invalid_version_component (v1Parts ! i)))
         | Some v1Comp \<Rightarrow>
             (case versionComponent intSize v2Parts i of
                None \<Rightarrow> (False, False, Some (invalid_version_component (v2Parts ! i)))
              | Some v2Comp \<Rightarrow>
                  if v1Comp < v2Comp then (True, False, None)
                  else if v1Comp > v2Comp then (False, True, None)
                  else compareLoop intSize (i + 1) v1Parts v2Parts))
      else (False, False, None))"
  by pat_completeness auto
termination
  by (relation "measure (\<lambda>(intSize, i, v1Parts, v2Parts). 3 - i)") auto

declare compareLoop.simps [simp del]

definition compareVersions ::
  "nat \<Rightarrow> string \<Rightarrow> string \<Rightarrow> bool \<times> bool \<times> version_error option" where
  "compareVersions intSize version1 version2 =
     (let v1Parts = Split version1 (CHR ''.'');
          v2Parts = Split version2 (CHR ''.'')
      in if length v1Parts = 0 \<or> length v2Parts = 0
         then (False, False, Some invalid_version_format)
         else compareLoop intSize 0 v1Parts v2Parts)"

subsection \<open>What a version string means\<close>

text \<open>
  The reading of version strings that the comparison is measured against. It is
  written from the meaning of the words, not from the code, and shares no
  definition with it.

  A version string is its components written one after the other with a dot
  between neighbours: \<open>dotted\<close> writes a list of components as the string.
  The components of a string are the dot-free strings it is written from.
\<close>

fun dotted :: "string list \<Rightarrow> string" where
  "dotted [] = []"
| "dotted [p] = p"
| "dotted (p # q # ps) = p @ CHR ''.'' # dotted (q # ps)"

text \<open>
  A decimal integer is an optional sign followed by one or more of the digits
  0 to 9; its value is the sum of its digits, each times the power of ten of its
  place. \<open>digitOf\<close> looks a character up among the ten digits in their
  order; \<open>unitsFirst\<close> takes the digits from the units upwards.
\<close>

definition digitOf :: "char \<Rightarrow> int option" where
  "digitOf c = map_of (zip ''0123456789'' [0, 1, 2, 3, 4, 5, 6, 7, 8, 9]) c"

fun unitsFirst :: "string \<Rightarrow> int option" where
  "unitsFirst [] = Some 0"
| "unitsFirst (c # cs) =
     (case (digitOf c, unitsFirst cs) of
        (Some d, Some higher) \<Rightarrow> Some (d + 10 * higher)
      | _ \<Rightarrow> None)"

definition naturalNumeral :: "string \<Rightarrow> int option" where
  "naturalNumeral ds = (if ds = [] then None else unitsFirst (rev ds))"

fun decimalInteger :: "string \<Rightarrow> int option" where
  "decimalInteger [] = None"
| "decimalInteger (c # cs) =
     (if c = CHR ''-'' then map_option uminus (naturalNumeral cs)
      else if c = CHR ''+'' then naturalNumeral cs
      else naturalNumeral (c # cs))"

text \<open>
  The values a signed integer of \<open>intSize\<close> bits can hold.
\<close>

definition fitsInt :: "nat \<Rightarrow> int \<Rightarrow> bool" where
  "fitsInt intSize v = (- (2 ^ (intSize - 1)) \<le> v \<and> v < 2 ^ (intSize - 1))"

text \<open>
  The number at place \<open>i\<close> of a version with the given components: \<open>0\<close>
  where the version has no component at that place, else the value of the
  component if it is a decimal integer that fits the machine integer, and
  \<open>None\<close> if it is not. \<open>versionLess\<close> orders two triples of such numbers by
  the first place at which they differ.
\<close>

definition versionNumber :: "nat \<Rightarrow> string list \<Rightarrow> nat \<Rightarrow> int option" where
  "versionNumber intSize components i =
     (case drop i components of
        [] \<Rightarrow> Some 0
      | component # later \<Rightarrow>
          (case decimalInteger component of
             Some v \<Rightarrow> if fitsInt intSize v then Some v else None
           | None \<Rightarrow> None))"

fun versionLess :: "int \<times> int \<times> int \<Rightarrow> int \<times> int \<times> int \<Rightarrow> bool" where
  "versionLess (a0, a1, a2) (b0, b1, b2) =
     (a0 < b0 \<or> (a0 = b0 \<and> (a1 < b1 \<or> (a1 = b1 \<and> a2 < b2))))"

section \<open>Auxiliary notions and sample values\<close>

text \<open>
  The byte counts of the iterations of a script that a relay completes: those
  before the first failed read or write.
\<close>

fun relayed :: "iteration list \<Rightarrow> nat list" where
  "relayed [] = []"
| "relayed (Relays dataLen # rest) = dataLen # relayed rest"
| "relayed (ReadFails # rest) = []"
| "relayed (WriteFails dataLen # rest) = []"

text \<open>
  Concrete values at which the properties below are evaluated: settings with
  the debug level and \<^verbatim>\<open>ShowInternetUsage\<close> to choose (\<^verbatim>\<open>LVL_3\<close> is \<open>3\<close>); a
  client at address 10.0.0.7 whose request kind, whitelist verdict and dial
  outcome are to choose, with a \<^verbatim>\<open>WarmMS\<close> that succeeds; and a statistics record
  with the status and the major error to choose.
\<close>

definition sampleConfig :: "bool \<Rightarrow> int \<Rightarrow> config" where
  "sampleConfig showUsage debugLvl =
     \<lparr>InfoSuspended = ''suspended'', InfoHibernation = ''hibernating'',
      InfoStarting = ''starting'', ShowInternetUsage = showUsage, SuspendAllow = True,
      EnableQuery = False, DebugLvl = debugLvl, LVL_3 = 3\<rparr>"

definition sampleEnv :: "reqType \<Rightarrow> bool \<Rightarrow> bool \<Rightarrow> environment" where
  "sampleEnv kind denied dialFails =
     \<lparr>InfoSuspended = ''suspended'', InfoHibernation = ''hibernating'',
      InfoStarting = ''starting'', ShowInternetUsage = True, SuspendAllow = True,
      EnableQuery = False, DebugLvl = 1, LVL_3 = 3,
      RemoteAddr = ''10.0.0.7:51234'',
      getReqType = ([0x10, 0x00], kind, False),
      getPing_failed = False,
      IsWhitelist_denied = (\<lambda>packet address. denied),
      WarmMS = (\<lambda>stats. (False, stats\<lparr>Status := SERVER_STATUS_ONLINE, Suspended := False\<rparr>)),
      Dial_failed = dialFails,
      buildMessage = (\<lambda>kind text. of_nat (length text) # map of_char text),
      Sprintf = (\<lambda>format args. format)\<rparr>"

definition sampleStats :: "serverStatus \<Rightarrow> MshLog option \<Rightarrow> serverStats" where
  "sampleStats status err =
     \<lparr>Status = status, Suspended = False, MajorError = err, ConnCount = 0,
      LoadProgress = ''0%'', BytesToClients = 0, BytesToServer = 0\<rparr>"

definition sampleStartup :: "bool \<Rightarrow> bool list \<Rightarrow> startup" where
  "sampleStartup suspendAllow acceptsFailed =
     \<lparr>InfoSuspended = ''suspended'', InfoHibernation = ''hibernating'',
      InfoStarting = ''starting'', ShowInternetUsage = False, SuspendAllow = suspendAllow,
      EnableQuery = False, DebugLvl = 1, LVL_3 = 3,
      LoadConfig_failed = False, ReqSent_arrives = True, Listen_failed = False,
      accepts = acceptsFailed\<rparr>"

section \<open>Properties\<close>

subsection \<open>The connection handler\<close>

text \<open>
  C1. While a major error is latched, a request that has been classified (the
  handler got past the peer address and \<^verbatim>\<open>getReqType\<close> returned no error) is
  answered with the major-error text in the shape of its request kind, followed
  by the ping exchange for an INFO request, and the connection is closed; the
  statistics record is left as it was. Whatever the request and however the
  classification ends, a run of the handler under a latched major error neither
  calls \<^verbatim>\<open>WarmMS\<close> (the only way from the handler to a launch) nor dials the
  server, writes to it or starts a relay.
\<close>

theorem MajorError_reply_only:
  assumes latched: "MajorError stats = Some majorError"
  shows "(0 \<le> LastIndex (RemoteAddr env) (CHR '':'') \<and> getReqType env = (reqPacket, reqType, False)
            \<longrightarrow> HandlerClientConn env stats =
                  Some ([ClientWrite (buildMessage env reqType
                           (Sprintf env (Mex majorError) (Arg majorError)))]
                        @ (if reqType = CLIENT_REQ_INFO then [CallGetPing] else [])
                        @ [ClientClose],
                        stats))
       \<and> (\<forall>evs stats'. HandlerClientConn env stats = Some (evs, stats')
            \<longrightarrow> CallWarmMS \<notin> set evs \<and> DialServer \<notin> set evs
                \<and> (\<forall>packet. ServerWrite packet \<notin> set evs)
                \<and> (\<forall>d r. GoForwardTCP d r \<notin> set evs))"
  using latched
  by (auto simp: HandlerClientConn_def Let_def split: if_splits prod.splits)

theorem MajorError_reply_only_witness:
  "HandlerClientConn (sampleEnv CLIENT_REQ_INFO False False)
       (sampleStats SERVER_STATUS_OFFLINE (Some \<lparr>Mex = ''boom'', Arg = []\<rparr>))
     = Some ([ClientWrite [4, 98, 111, 111, 109], CallGetPing, ClientClose],
             sampleStats SERVER_STATUS_OFFLINE (Some \<lparr>Mex = ''boom'', Arg = []\<rparr>))"
proof -
  have latched: "MajorError (sampleStats SERVER_STATUS_OFFLINE (Some \<lparr>Mex = ''boom'', Arg = []\<rparr>))
      = Some \<lparr>Mex = ''boom'', Arg = []\<rparr>"
    by (simp add: sampleStats_def)
  have reached: "0 \<le> LastIndex (RemoteAddr (sampleEnv CLIENT_REQ_INFO False False)) (CHR '':'')"
    by (simp add: sampleEnv_def)
  have classified: "getReqType (sampleEnv CLIENT_REQ_INFO False False) = ([0x10, 0x00], CLIENT_REQ_INFO, False)"
    by (simp add: sampleEnv_def)
  have "HandlerClientConn (sampleEnv CLIENT_REQ_INFO False False)
       (sampleStats SERVER_STATUS_OFFLINE (Some \<lparr>Mex = ''boom'', Arg = []\<rparr>))
     = Some ([ClientWrite (buildMessage (sampleEnv CLIENT_REQ_INFO False False) CLIENT_REQ_INFO
                (Sprintf (sampleEnv CLIENT_REQ_INFO False False) (Mex \<lparr>Mex = ''boom'', Arg = []\<rparr>)
                   (Arg \<lparr>Mex = ''boom'', Arg = []\<rparr>)))]
             @ (if CLIENT_REQ_INFO = CLIENT_REQ_INFO then [CallGetPing] else [])
             @ [ClientClose],
             sampleStats SERVER_STATUS_OFFLINE (Some \<lparr>Mex = ''boom'', Arg = []\<rparr>))"
    using MajorError_reply_only [OF latched, of "sampleEnv CLIENT_REQ_INFO False False"
        "[0x10, 0x00]" CLIENT_REQ_INFO] reached classified
    by blast
  then show ?thesis
    by (simp add: sampleEnv_def)
qed

text \<open>
  C3, as stated, fails where a major error is latched: a JOIN request that the
  whitelist denies is then answered with the major-error text, not with the
  permission-denied text.
\<close>

theorem whitelist_reject_counterexample:
  "getReqType (sampleEnv CLIENT_REQ_JOIN True False) = ([0x10, 0x00], CLIENT_REQ_JOIN, False)
   \<and> IsWhitelist_denied (sampleEnv CLIENT_REQ_JOIN True False) [0x10, 0x00] ''10.0.0.7''
   \<and> HandlerClientConn (sampleEnv CLIENT_REQ_JOIN True False)
        (sampleStats SERVER_STATUS_OFFLINE (Some \<lparr>Mex = ''boom'', Arg = []\<rparr>))
      = Some ([ClientWrite (buildMessage (sampleEnv CLIENT_REQ_JOIN True False) CLIENT_REQ_JOIN ''boom''),
               ClientClose],
              sampleStats SERVER_STATUS_OFFLINE (Some \<lparr>Mex = ''boom'', Arg = []\<rparr>))
   \<and> buildMessage (sampleEnv CLIENT_REQ_JOIN True False) CLIENT_REQ_JOIN ''boom''
       \<noteq> buildMessage (sampleEnv CLIENT_REQ_JOIN True False) CLIENT_REQ_JOIN
            (''You don'' @ [CHR 0x27] @ ''t have permission to warm this server'')"
  by (simp add: HandlerClientConn_def sampleEnv_def sampleStats_def)

text \<open>
  C3, amended. A request classified as JOIN while no major error is latched,
  whose packet and peer address the whitelist check denies, is answered with the
  permission-denied disconnect packet and the connection is closed; \<^verbatim>\<open>WarmMS\<close>
  is not called and the statistics record, the server status with it, is left as
  it was.
\<close>

theorem whitelist_reject:
  assumes reached: "0 \<le> LastIndex (RemoteAddr env) (CHR '':'')"
    and classified: "getReqType env = (reqPacket, CLIENT_REQ_JOIN, False)"
    and unlatched: "MajorError stats = None"
    and denied: "IsWhitelist_denied env reqPacket
                   (take (nat (LastIndex (RemoteAddr env) (CHR '':''))) (RemoteAddr env))"
  shows "\<exists>evs. HandlerClientConn env stats = Some (evs, stats)
           \<and> evs = [ClientWrite (buildMessage env CLIENT_REQ_JOIN
                        (''You don'' @ [CHR 0x27] @ ''t have permission to warm this server'')),
                    ClientClose]
           \<and> CallWarmMS \<notin> set evs"
  using assms by (simp add: HandlerClientConn_def Let_def)

theorem whitelist_reject_witness:
  "HandlerClientConn (sampleEnv CLIENT_REQ_JOIN True False) (sampleStats SERVER_STATUS_OFFLINE None)
     = Some ([ClientWrite (buildMessage (sampleEnv CLIENT_REQ_JOIN True False) CLIENT_REQ_JOIN
                (''You don'' @ [CHR 0x27] @ ''t have permission to warm this server'')),
              ClientClose],
             sampleStats SERVER_STATUS_OFFLINE None)
   \<and> Status (sampleStats SERVER_STATUS_OFFLINE None) = SERVER_STATUS_OFFLINE"
proof -
  have reached: "0 \<le> LastIndex (RemoteAddr (sampleEnv CLIENT_REQ_JOIN True False)) (CHR '':'')"
    by (simp add: sampleEnv_def)
  have classified: "getReqType (sampleEnv CLIENT_REQ_JOIN True False) = ([0x10, 0x00], CLIENT_REQ_JOIN, False)"
    by (simp add: sampleEnv_def)
  have unlatched: "MajorError (sampleStats SERVER_STATUS_OFFLINE None) = None"
    by (simp add: sampleStats_def)
  have denied: "IsWhitelist_denied (sampleEnv CLIENT_REQ_JOIN True False) [0x10, 0x00]
      (take (nat (LastIndex (RemoteAddr (sampleEnv CLIENT_REQ_JOIN True False)) (CHR '':'')))
         (RemoteAddr (sampleEnv CLIENT_REQ_JOIN True False)))"
    by (simp add: sampleEnv_def)
  show ?thesis
    using whitelist_reject [OF reached classified unlatched denied]
    by (auto simp: sampleStats_def)
qed

text \<open>
  C5. Where the dial fails, \<^verbatim>\<open>openProxy\<close> writes the JOIN-shaped reply to the
  client and returns; it writes nothing to a server socket and has no access to
  the statistics record. It does not close the client connection, and neither
  does the handler on any path on which it has called \<^verbatim>\<open>openProxy\<close>: no run of
  the handler that dials closes the client connection.
\<close>

theorem dial_failure_leaves_client_open:
  assumes "Dial_failed env"
  shows "openProxy env packet req =
           [DialServer,
            ClientWrite (buildMessage env CLIENT_REQ_JOIN
              (''can'' @ [CHR 0x27] @ ''t connect to server... check if minecraft server is running and set the correct ServPort''))]
         \<and> (\<forall>stats evs stats'.
              HandlerClientConn env stats = Some (evs, stats') \<and> DialServer \<in> set evs
                \<longrightarrow> ClientClose \<notin> set evs)"
proof -
  have "ClientClose \<notin> set evs"
    if "HandlerClientConn env stats = Some (evs, stats')" "DialServer \<in> set evs"
    for stats evs stats'
    using that
    by (auto simp: HandlerClientConn_def Let_def openProxy_def
        split: if_splits prod.splits option.splits reqType.splits)
  then show ?thesis
    using assms by (auto simp: openProxy_def)
qed

theorem dial_failure_leaves_client_open_witness:
  "HandlerClientConn (sampleEnv CLIENT_REQ_JOIN False True) (sampleStats SERVER_STATUS_ONLINE None)
     = Some ([CallWarmMS, DialServer,
              ClientWrite (buildMessage (sampleEnv CLIENT_REQ_JOIN False True) CLIENT_REQ_JOIN
                (''can'' @ [CHR 0x27] @ ''t connect to server... check if minecraft server is running and set the correct ServPort''))],
             sampleStats SERVER_STATUS_ONLINE None)
   \<and> ClientClose \<notin> set (openProxy (sampleEnv CLIENT_REQ_JOIN False True) [0x10, 0x00] CLIENT_REQ_JOIN)"
proof -
  have fails: "Dial_failed (sampleEnv CLIENT_REQ_JOIN False True)"
    by (simp add: sampleEnv_def)
  have run: "HandlerClientConn (sampleEnv CLIENT_REQ_JOIN False True) (sampleStats SERVER_STATUS_ONLINE None)
     = Some (CallWarmMS # openProxy (sampleEnv CLIENT_REQ_JOIN False True) [0x10, 0x00] CLIENT_REQ_JOIN,
             sampleStats SERVER_STATUS_ONLINE None)"
    by (simp add: HandlerClientConn_def sampleEnv_def sampleStats_def)
  show ?thesis
    using dial_failure_leaves_client_open [OF fails, of "[0x10, 0x00]" CLIENT_REQ_JOIN] run
    by simp
qed




subsection \<open>The proxy relays\<close>





text \<open>
  C4. Two JOIN proxies are open, so relays 1 and 3 are their server-to-client
  relays. Both read \<^verbatim>\<open>ConnCount\<close> for their increment before either writes it
  back: one increment is lost and the counter stands at 1 with two clients
  connected. When both relays have returned the counter is \<open>-1\<close>.
\<close>

theorem ConnCount_negative_after_race:
  "connCount (run [1, 3, 1, 3] (proxies [CLIENT_REQ_JOIN, CLIENT_REQ_JOIN])) = 1
   \<and> connCount (run [1, 3, 1, 3, 1, 1, 3, 3] (proxies [CLIENT_REQ_JOIN, CLIENT_REQ_JOIN])) = - 1
   \<and> points (run [1, 3, 1, 3, 1, 1, 3, 3] (proxies [CLIENT_REQ_JOIN, CLIENT_REQ_JOIN]))
       = [(False, CLIENT_REQ_JOIN, AtEntry), (True, CLIENT_REQ_JOIN, Returned),
          (False, CLIENT_REQ_JOIN, AtEntry), (True, CLIENT_REQ_JOIN, Returned)]"
  by (simp add: proxies_def schedule_def)

text \<open>
  The pairing of increment and decrement is sound in itself: were each
  read-modify-write of the counter done in one piece, the counter would equal
  the number of server-to-client JOIN relays in their loop in every reachable
  state, and so never be negative.
\<close>

lemma filter_update_length:
  "i < length xs \<Longrightarrow>
     int (length (filter P (xs[i := y]))) =
       int (length (filter P xs)) - (if P (xs ! i) then 1 else 0) + (if P y then 1 else 0)"
proof (induction xs arbitrary: i)
  case Nil
  then show ?case by simp
next
  case (Cons x xs)
  show ?case
  proof (cases i)
    case 0
    then show ?thesis by simp
  next
    case (Suc n)
    with Cons.prems have "n < length xs" by simp
    from Cons.IH [OF this] Suc show ?thesis by (auto split: if_splits)
  qed
qed

lemma list_all_update:
  "list_all Q xs \<Longrightarrow> Q y \<Longrightarrow> list_all Q (xs[i := y])"
  by (induction xs arbitrary: i) (auto split: nat.splits)

lemma settled_proxies: "settled (proxies reqs)"
  by (induction reqs) (auto simp: settled_def proxies_def)

lemma settled_scheduleAtomic:
  assumes "settled sys"
  shows "settled (scheduleAtomic i sys)"
proof (cases "i < length (points sys)")
  case False
  then show ?thesis using assms by (simp add: scheduleAtomic_def schedule_def Let_def)
next
  case True
  obtain d r p where pt: "points sys ! i = (d, r, p)" by (cases "points sys ! i")
  have nb: "\<not> betweenReadAndWrite (d, r, p)"
    using assms True pt by (auto simp: settled_def list_all_length)
  have cnt: "connCount sys = int (length (filter countedInLoop (points sys)))"
    and all: "list_all (\<lambda>r. \<not> betweenReadAndWrite r) (points sys)"
    using assms by (auto simp: settled_def)
  show ?thesis
  proof (cases p)
    case AtEntry
    then show ?thesis
      using True pt cnt list_all_update [OF all]
      by (auto simp: scheduleAtomic_def schedule_def Let_def settled_def filter_update_length)
  next
    case InLoop
    then show ?thesis
      using True pt cnt list_all_update [OF all]
      by (auto simp: scheduleAtomic_def schedule_def Let_def settled_def filter_update_length)
  next
    case Returned
    then show ?thesis
      using True pt cnt list_all_update [OF all]
      by (auto simp: scheduleAtomic_def schedule_def Let_def settled_def filter_update_length)
  next
    case (IncrementRead v)
    then show ?thesis using nb by simp
  next
    case (DecrementRead v)
    then show ?thesis using nb by simp
  qed
qed

lemma settled_runAtomic: "settled sys \<Longrightarrow> settled (runAtomic choices sys)"
  by (induction choices arbitrary: sys) (auto simp: settled_scheduleAtomic)

lemma ConnCount_nonnegative_when_atomic:
  "0 \<le> connCount (runAtomic choices (proxies reqs))"
  using settled_runAtomic [OF settled_proxies, of choices reqs] by (simp add: settled_def)

text \<open>
  A relay returns exactly if its script holds a failed read or write, that is,
  if it does not complete every iteration of the script.
\<close>

lemma relayLoop_returns:
  "relayLoop cfg d script stats = (evs, stats', returned) \<Longrightarrow>
     returned \<longleftrightarrow> length (relayed script) < length script"
proof (induction cfg d script stats arbitrary: evs stats' returned rule: relayLoop.induct)
  case (4 cfg d dataLen rest stats)
  obtain counted stats1 where c: "countBytes cfg d dataLen stats = (counted, stats1)"
    by (cases "countBytes cfg d dataLen stats")
  obtain later stats2 r where l: "relayLoop cfg d rest stats1 = (later, stats2, r)"
    by (cases "relayLoop cfg d rest stats1")
  from "4.IH" [OF c [symmetric] l] "4.prems" c l
  show ?case by auto
qed (auto simp: less_Suc_eq_le)

lemma forwardTCP_returns:
  assumes "forwardTCP cfg d req script stats = (evs, stats', returned)"
  shows "returned \<longleftrightarrow> length (relayed script) < length script"
proof (cases "d \<and> req = CLIENT_REQ_JOIN")
  case True
  obtain body stats1 r where
    l: "relayLoop cfg d script (stats\<lparr>ConnCount := ConnCount stats + 1\<rparr>) = (body, stats1, r)"
    by (cases "relayLoop cfg d script (stats\<lparr>ConnCount := ConnCount stats + 1\<rparr>)")
  from relayLoop_returns [OF l] assms True l show ?thesis
    by (auto simp: forwardTCP_def split: if_splits)
next
  case False
  with assms have "relayLoop cfg d script stats = (evs, stats', returned)"
    by (auto simp: forwardTCP_def)
  from relayLoop_returns [OF this] show ?thesis .
qed

lemma underM_append_plain:
  "underM w held xs \<Longrightarrow> \<forall>e \<in> set ys. \<not> w e \<and> e \<noteq> LockM \<and> e \<noteq> UnlockM \<Longrightarrow>
     underM w held (xs @ ys)"
proof (induction xs arbitrary: held)
  case Nil
  then show ?case by (induction ys) auto
next
  case (Cons x xs)
  then show ?case by (auto split: if_splits)
qed

lemma relayLoop_bytes:
  "relayLoop cfg d script stats = (evs, stats', returned) \<Longrightarrow>
     filter writesByteCounter evs =
       (if ShowInternetUsage cfg \<and> LVL_3 cfg \<le> DebugLvl cfg
        then map (if d then AddBytesToClients else AddBytesToServer) (relayed script)
        else [])
     \<and> underM writesByteCounter False evs
     \<and> BytesToClients stats' = BytesToClients stats +
          (if ShowInternetUsage cfg \<and> LVL_3 cfg \<le> DebugLvl cfg \<and> d
           then real (sum_list (relayed script)) else 0)
     \<and> BytesToServer stats' = BytesToServer stats +
          (if ShowInternetUsage cfg \<and> LVL_3 cfg \<le> DebugLvl cfg \<and> \<not> d
           then real (sum_list (relayed script)) else 0)"
proof (induction cfg d script stats arbitrary: evs stats' returned rule: relayLoop.induct)
  case (4 cfg d dataLen rest stats)
  obtain counted stats1 where c: "countBytes cfg d dataLen stats = (counted, stats1)"
    by (cases "countBytes cfg d dataLen stats")
  obtain later stats2 r where l: "relayLoop cfg d rest stats1 = (later, stats2, r)"
    by (cases "relayLoop cfg d rest stats1")
  from "4.IH" [OF c [symmetric] l] "4.prems" c l
  show ?case by (auto simp: countBytes_def split: if_splits)
qed auto

text \<open>
  C7, as stated, fails where \<^verbatim>\<open>ShowInternetUsage\<close> is enabled and the debug
  level is below \<^verbatim>\<open>LVL_3\<close>: the relay forwards 10 bytes to the client and
  \<^verbatim>\<open>BytesToClients\<close> stays at \<open>0\<close>. It also fails, with the debug level high
  enough, for an iteration that reads 5 bytes and then fails to write them:
  the relay returns before the telemetry block.
\<close>

theorem byte_accounting_counterexample:
  "ShowInternetUsage (sampleConfig True 1)
   \<and> forwardTCP (sampleConfig True 1) True CLIENT_REQ_INFO [Relays 10, ReadFails]
        (sampleStats SERVER_STATUS_ONLINE None)
     = ([SourceRead, DestinationWrite 10, SourceRead, DestinationClose, SourceClose],
        sampleStats SERVER_STATUS_ONLINE None, True)
   \<and> ShowInternetUsage (sampleConfig True 4)
   \<and> forwardTCP (sampleConfig True 4) True CLIENT_REQ_INFO [WriteFails 5]
        (sampleStats SERVER_STATUS_ONLINE None)
     = ([SourceRead, DestinationWrite 5, DestinationClose, SourceClose],
        sampleStats SERVER_STATUS_ONLINE None, True)
   \<and> BytesToClients (sampleStats SERVER_STATUS_ONLINE None) = 0"
  by (simp add: forwardTCP_def countBytes_def sampleConfig_def sampleStats_def)

text \<open>
  C7, amended. The byte counters are written for exactly the iterations a relay
  completes (read and write both succeed), and only if \<^verbatim>\<open>ShowInternetUsage\<close> is
  enabled and the debug level is at least \<^verbatim>\<open>LVL_3\<close>: then the writes of a relay
  are, in order, the additions of the relayed byte counts to \<^verbatim>\<open>BytesToClients\<close>
  (server-to-client relay) or \<^verbatim>\<open>BytesToServer\<close> (client-to-server relay), each
  made while the relay holds the mutex, and the counter of the relay's direction
  ends higher by their sum; otherwise the relay writes no byte counter.
\<close>

theorem byte_accounting:
  assumes "forwardTCP cfg isServerToClient req script stats = (evs, stats', returned)"
  shows "filter writesByteCounter evs =
           (if ShowInternetUsage cfg \<and> LVL_3 cfg \<le> DebugLvl cfg
            then map (if isServerToClient then AddBytesToClients else AddBytesToServer) (relayed script)
            else [])
         \<and> underM writesByteCounter False evs
         \<and> BytesToClients stats' = BytesToClients stats +
              (if ShowInternetUsage cfg \<and> LVL_3 cfg \<le> DebugLvl cfg \<and> isServerToClient
               then real (sum_list (relayed script)) else 0)
         \<and> BytesToServer stats' = BytesToServer stats +
              (if ShowInternetUsage cfg \<and> LVL_3 cfg \<le> DebugLvl cfg \<and> \<not> isServerToClient
               then real (sum_list (relayed script)) else 0)"
proof (cases "isServerToClient \<and> req = CLIENT_REQ_JOIN")
  case True
  obtain body stats1 r where
    l: "relayLoop cfg isServerToClient script (stats\<lparr>ConnCount := ConnCount stats + 1\<rparr>) = (body, stats1, r)"
    by (cases "relayLoop cfg isServerToClient script (stats\<lparr>ConnCount := ConnCount stats + 1\<rparr>)")
  note b = relayLoop_bytes [OF l]
  have tail: "underM writesByteCounter False (body @ [ConnCountDec, CallFreezeMSSchedule])"
    using b by (intro underM_append_plain) auto
  from b tail assms True l show ?thesis
    by (auto simp: forwardTCP_def split: if_splits)
next
  case False
  with assms have "relayLoop cfg isServerToClient script stats = (evs, stats', returned)"
    by (auto simp: forwardTCP_def)
  from relayLoop_bytes [OF this] show ?thesis .
qed

theorem byte_accounting_witness:
  "forwardTCP (sampleConfig True 3) False CLIENT_REQ_JOIN [Relays 10, Relays 7, WriteFails 5]
       (sampleStats SERVER_STATUS_ONLINE None)
     = ([SourceRead, DestinationWrite 10, LockM, AddBytesToServer 10, UnlockM,
         SourceRead, DestinationWrite 7, LockM, AddBytesToServer 7, UnlockM,
         SourceRead, DestinationWrite 5, DestinationClose, SourceClose],
        (sampleStats SERVER_STATUS_ONLINE None)\<lparr>BytesToServer := 17\<rparr>, True)
   \<and> BytesToServer ((sampleStats SERVER_STATUS_ONLINE None)\<lparr>BytesToServer := 17\<rparr>)
       = BytesToServer (sampleStats SERVER_STATUS_ONLINE None) + 17"
proof -
  have run: "forwardTCP (sampleConfig True 3) False CLIENT_REQ_JOIN [Relays 10, Relays 7, WriteFails 5]
       (sampleStats SERVER_STATUS_ONLINE None)
     = ([SourceRead, DestinationWrite 10, LockM, AddBytesToServer 10, UnlockM,
         SourceRead, DestinationWrite 7, LockM, AddBytesToServer 7, UnlockM,
         SourceRead, DestinationWrite 5, DestinationClose, SourceClose],
        (sampleStats SERVER_STATUS_ONLINE None)\<lparr>BytesToServer := 17\<rparr>, True)"
    by (simp add: forwardTCP_def countBytes_def sampleConfig_def sampleStats_def)
  show ?thesis
    using byte_accounting [OF run] run by (simp add: sampleConfig_def)
qed

text \<open>
  C8. The server-to-client relay of a JOIN proxy writes \<^verbatim>\<open>ConnCount\<close> without
  holding the mutex: its first action is the increment, and the relay has not
  locked \<^verbatim>\<open>M\<close> before it. The byte counters, in the same function and in
  \<^verbatim>\<open>printDataUsage\<close>, are written under the mutex.
\<close>

theorem ConnCount_written_without_M:
  "\<not> underM writesCounter False (fst (forwardTCP cfg True CLIENT_REQ_JOIN script stats))"
  by (simp add: forwardTCP_def split: prod.splits)

theorem ConnCount_written_without_M_witness:
  "fst (forwardTCP (sampleConfig False 1) True CLIENT_REQ_JOIN [ReadFails]
          (sampleStats SERVER_STATUS_ONLINE None))
     = [ConnCountInc, SourceRead, DestinationClose, SourceClose, ConnCountDec, CallFreezeMSSchedule]
   \<and> \<not> underM writesCounter False
        [ConnCountInc, SourceRead, DestinationClose, SourceClose, ConnCountDec, CallFreezeMSSchedule]"
proof -
  have run: "fst (forwardTCP (sampleConfig False 1) True CLIENT_REQ_JOIN [ReadFails]
          (sampleStats SERVER_STATUS_ONLINE None))
     = [ConnCountInc, SourceRead, DestinationClose, SourceClose, ConnCountDec, CallFreezeMSSchedule]"
    by (simp add: forwardTCP_def)
  show ?thesis
    using ConnCount_written_without_M [of "sampleConfig False 1" "[ReadFails]"
        "sampleStats SERVER_STATUS_ONLINE None"]
    unfolding run using run by simp
qed

lemma printDataUsage_tick_underM:
  "underM writesCounter False (fst (printDataUsage_tick cfg stats))"
  by (simp add: printDataUsage_tick_def)

subsection \<open>Start-up\<close>

lemma acceptLoop_events:
  "e \<in> set (acceptLoop as) \<Longrightarrow> e = Accept \<or> e = GoHandlerClientConn"
  by (induction as) (auto split: if_splits)

lemma Listen_reached:
  "Listen \<in> set (main st) \<longleftrightarrow> \<not> LoadConfig_failed st \<and> ReqSent_arrives st"
  by (auto simp: main_def)

text \<open>
  C9. In a run of \<^verbatim>\<open>main\<close> that opens the listener with \<^verbatim>\<open>SuspendAllow\<close> set,
  \<^verbatim>\<open>WarmMS\<close> is called exactly once, and before that call \<^verbatim>\<open>main\<close> has neither
  opened the listener nor accepted a connection or started a handler for one;
  the listener is opened after the call. If \<^verbatim>\<open>SuspendAllow\<close> is not set, \<^verbatim>\<open>main\<close>
  does not call \<^verbatim>\<open>WarmMS\<close> at all. The listener is opened in exactly the runs in
  which the configuration loads and the ready signal arrives on \<^verbatim>\<open>ReqSent\<close>.
\<close>

theorem startup_prewarm:
  "(SuspendAllow st \<and> Listen \<in> set (main st) \<longrightarrow>
      (\<exists>before after. main st = before @ CallWarmMS # after
         \<and> CallWarmMS \<notin> set before \<and> CallWarmMS \<notin> set after
         \<and> Listen \<notin> set before \<and> (\<forall>e \<in> set before. \<not> clientEvent e)
         \<and> Listen \<in> set after))
   \<and> (\<not> SuspendAllow st \<longrightarrow> CallWarmMS \<notin> set (main st))
   \<and> (Listen \<in> set (main st) \<longleftrightarrow> \<not> LoadConfig_failed st \<and> ReqSent_arrives st)"
proof (intro conjI impI)
  assume a: "SuspendAllow st \<and> Listen \<in> set (main st)"
  then have ok: "\<not> LoadConfig_failed st" "ReqSent_arrives st"
    by (simp_all add: Listen_reached)
  let ?before = "[CallLoadConfig, GoMshMgr, ReceiveReqSent]"
  let ?after = "[GoGetInput] @ (if EnableQuery st then [GoHandlerQuery] else []) @ [Listen]
        @ (if Listen_failed st then [CallAutoTerminate] else acceptLoop (accepts st))"
  have "main st = ?before @ CallWarmMS # ?after"
    using ok a by (simp add: main_def)
  moreover have "CallWarmMS \<notin> set ?after"
    using acceptLoop_events [of CallWarmMS "accepts st"] by auto
  ultimately show "\<exists>before after. main st = before @ CallWarmMS # after
               \<and> CallWarmMS \<notin> set before \<and> CallWarmMS \<notin> set after
               \<and> Listen \<notin> set before \<and> (\<forall>e \<in> set before. \<not> clientEvent e)
               \<and> Listen \<in> set after"
    by (intro exI [of _ ?before] exI [of _ ?after]) simp
next
  assume "\<not> SuspendAllow st"
  then show "CallWarmMS \<notin> set (main st)"
    using acceptLoop_events [of CallWarmMS "accepts st"] by (auto simp: main_def)
next
  show "Listen \<in> set (main st) \<longleftrightarrow> \<not> LoadConfig_failed st \<and> ReqSent_arrives st"
    by (rule Listen_reached)
qed

theorem startup_prewarm_witness:
  "main (sampleStartup True [False, True])
     = [CallLoadConfig, GoMshMgr, ReceiveReqSent, CallWarmMS, GoGetInput, Listen,
        Accept, GoHandlerClientConn, Accept]
   \<and> CallWarmMS \<notin> set (main (sampleStartup False [False, True]))"
proof -
  have off: "\<not> SuspendAllow (sampleStartup False [False, True])"
    by (simp add: sampleStartup_def)
  have "main (sampleStartup True [False, True])
     = [CallLoadConfig, GoMshMgr, ReceiveReqSent, CallWarmMS, GoGetInput, Listen,
        Accept, GoHandlerClientConn, Accept]"
    by (simp add: main_def sampleStartup_def)
  then show ?thesis
    using startup_prewarm [of "sampleStartup False [False, True]"] off by blast
qed

subsection \<open>Version comparison\<close>

text \<open>
  \<^verbatim>\<open>strings.Split\<close> at the dots and \<open>dotted\<close> undo each other: the parts the
  code compares are the components the string is written from, and every
  string is written from its parts.
\<close>

lemma Split_not_empty: "Split s sep \<noteq> []"
  by (cases s) (auto split: list.splits)

lemma Split_plain: "sep \<notin> set p \<Longrightarrow> Split p sep = [p]"
  by (induction p) auto

lemma Split_append:
  "sep \<notin> set p \<Longrightarrow> Split (p @ sep # s) sep = p # Split s sep"
  by (induction p) auto

lemma Split_dotted:
  "ps \<noteq> [] \<Longrightarrow> \<forall>p \<in> set ps. CHR ''.'' \<notin> set p \<Longrightarrow> Split (dotted ps) (CHR ''.'') = ps"
  by (induction ps rule: dotted.induct) (auto simp: Split_plain Split_append)

lemma dotted_Split:
  "dotted (Split s (CHR ''.'')) = s \<and> (\<forall>p \<in> set (Split s (CHR ''.'')). CHR ''.'' \<notin> set p)"
proof (induction s)
  case Nil
  then show ?case by simp
next
  case (Cons c s)
  obtain p ps where sp: "Split s (CHR ''.'') = p # ps"
    using Split_not_empty [of s "CHR ''.''"] by (cases "Split s (CHR ''.'')") auto
  with Cons show ?case by (cases ps) auto
qed

lemma digitOf_isDigit:
  "digitOf c = Some d \<Longrightarrow> isDigit c \<and> d = of_char c - 48"
  by (auto simp: digitOf_def isDigit_def split: if_splits)

lemma unitsFirst_snoc:
  "unitsFirst (cs @ [c]) =
     (case (unitsFirst cs, digitOf c) of
        (Some v, Some d) \<Rightarrow> Some (v + 10 ^ length cs * d)
      | _ \<Rightarrow> None)"
  by (induction cs) (auto split: option.splits simp: algebra_simps)

lemma digitsValue_unitsFirst:
  "unitsFirst (rev ds) = Some v \<Longrightarrow>
     list_all isDigit ds \<and> digitsValue n ds = n * 10 ^ length ds + v"
proof (induction ds arbitrary: n v)
  case Nil
  then show ?case by simp
next
  case (Cons c ds)
  from Cons.prems obtain w d where
    w: "unitsFirst (rev ds) = Some w" and d: "digitOf c = Some d"
    and v: "v = w + 10 ^ length ds * d"
    by (auto simp: unitsFirst_snoc split: option.splits)
  from digitOf_isDigit [OF d] have c: "isDigit c" and dc: "of_char c - 48 = d"
    by simp_all
  from Cons.IH [OF w, of "n * 10 + d"]
  have "list_all isDigit ds" and "digitsValue (n * 10 + d) ds = (n * 10 + d) * 10 ^ length ds + w"
    by simp_all
  with c dc v show ?case by (simp add: algebra_simps)
qed

lemma Atoi_naturalNumeral:
  assumes "naturalNumeral ds = Some v"
  shows "ds \<noteq> [] \<and> list_all isDigit ds \<and> digitsValue 0 ds = v"
  using assms digitsValue_unitsFirst [of ds v 0]
  by (auto simp: naturalNumeral_def split: if_splits)

lemma isDigit_not_sign: "isDigit c \<Longrightarrow> c \<noteq> CHR ''-'' \<and> c \<noteq> CHR ''+''"
  by (auto simp: isDigit_def)

lemma Atoi_decimalInteger:
  assumes "decimalInteger s = Some v" and "fitsInt intSize v"
  shows "Atoi intSize s = Some v"
proof (cases s)
  case Nil
  with assms show ?thesis by simp
next
  case (Cons c cs)
  show ?thesis
  proof (cases "c = CHR ''-''")
    case True
    with assms Cons obtain w where w: "naturalNumeral cs = Some w" and v: "v = - w"
      by auto
    from Atoi_naturalNumeral [OF w] assms(2) v True Cons show ?thesis
      by (auto simp: Atoi_def Let_def fitsInt_def)
  next
    case False
    show ?thesis
    proof (cases "c = CHR ''+''")
      case True
      with assms Cons have w: "naturalNumeral cs = Some v" by auto
      from Atoi_naturalNumeral [OF w] assms(2) True Cons show ?thesis
        by (auto simp: Atoi_def Let_def fitsInt_def)
    next
      case plus: False
      with False assms Cons have w: "naturalNumeral (c # cs) = Some v" by auto
      from Atoi_naturalNumeral [OF w] assms(2) False plus Cons show ?thesis
        by (auto simp: Atoi_def Let_def fitsInt_def)
    qed
  qed
qed

text \<open>
  \<^verbatim>\<open>strconv.Atoi\<close> succeeds on exactly the decimal integers that fit the machine
  integer, and returns their value.
\<close>

lemma char_by_code: "(of_char c :: nat) = of_char d \<Longrightarrow> c = d"
  by (simp add: of_char_eq_iff)

lemma isDigit_digitOf:
  assumes "isDigit c"
  shows "digitOf c = Some (of_char c - 48)"
proof -
  define n where "n = (of_char c :: nat)"
  have "48 \<le> n" "n \<le> 57" using assms by (simp_all add: isDigit_def n_def)
  then have "n = 48 \<or> n = 49 \<or> n = 50 \<or> n = 51 \<or> n = 52 \<or> n = 53 \<or> n = 54
      \<or> n = 55 \<or> n = 56 \<or> n = 57"
    by arith
  then have "c = CHR ''0'' \<or> c = CHR ''1'' \<or> c = CHR ''2'' \<or> c = CHR ''3'' \<or> c = CHR ''4''
      \<or> c = CHR ''5'' \<or> c = CHR ''6'' \<or> c = CHR ''7'' \<or> c = CHR ''8'' \<or> c = CHR ''9''"
    unfolding n_def
    using char_by_code [of c "CHR ''0''"] char_by_code [of c "CHR ''1''"]
      char_by_code [of c "CHR ''2''"] char_by_code [of c "CHR ''3''"]
      char_by_code [of c "CHR ''4''"] char_by_code [of c "CHR ''5''"]
      char_by_code [of c "CHR ''6''"] char_by_code [of c "CHR ''7''"]
      char_by_code [of c "CHR ''8''"] char_by_code [of c "CHR ''9''"]
    by simp blast
  then show ?thesis
    by (auto simp: digitOf_def)
qed

lemma unitsFirst_digits:
  "list_all isDigit ds \<Longrightarrow> unitsFirst (rev ds) = Some (digitsValue n ds - n * 10 ^ length ds)"
proof (induction ds arbitrary: n)
  case Nil
  then show ?case by simp
next
  case (Cons c ds)
  then have c: "digitOf c = Some (of_char c - 48)" and ds: "list_all isDigit ds"
    by (simp_all add: isDigit_digitOf)
  from Cons.IH [OF ds, of "n * 10 + (of_char c - 48)"] c
  show ?case by (simp add: unitsFirst_snoc algebra_simps)
qed

lemma decimalInteger_Atoi:
  assumes "Atoi intSize s = Some v"
  shows "decimalInteger s = Some v \<and> fitsInt intSize v"
proof (cases s)
  case Nil
  with assms show ?thesis by (simp add: Atoi_def)
next
  case (Cons c cs)
  show ?thesis
  proof (cases "c = CHR ''-'' \<or> c = CHR ''+''")
    case True
    with assms Cons have d: "cs \<noteq> []" "list_all isDigit cs"
      by (auto simp: Atoi_def Let_def split: if_splits)
    from unitsFirst_digits [OF d(2), of 0] d(1)
    have "naturalNumeral cs = Some (digitsValue 0 cs)"
      by (simp add: naturalNumeral_def)
    with assms Cons True d show ?thesis
      by (auto simp: Atoi_def Let_def fitsInt_def split: if_splits)
  next
    case False
    with assms Cons have d: "list_all isDigit (c # cs)"
      by (auto simp: Atoi_def Let_def split: if_splits)
    from unitsFirst_digits [OF d, of 0]
    have "naturalNumeral (c # cs) = Some (digitsValue 0 (c # cs))"
      by (simp add: naturalNumeral_def)
    with assms Cons False d show ?thesis
      by (auto simp: Atoi_def Let_def fitsInt_def split: if_splits)
  qed
qed

lemma Atoi_iff_decimalInteger:
  "Atoi intSize s = Some v \<longleftrightarrow> decimalInteger s = Some v \<and> fitsInt intSize v"
  using decimalInteger_Atoi Atoi_decimalInteger by blast


text \<open>
  Hence a component as one iteration of the loop reads it is the number of the
  version at that place.
\<close>

lemma versionComponent_versionNumber:
  "versionComponent intSize parts i = versionNumber intSize parts i"
proof (cases "i < length parts")
  case False
  then show ?thesis by (simp add: versionNumber_def versionComponent_def)
next
  case True
  then have d: "drop i parts = parts ! i # drop (Suc i) parts"
    by (simp add: Cons_nth_drop_Suc)
  show ?thesis
  proof (cases "Atoi intSize (parts ! i)")
    case None
    with Atoi_decimalInteger [of "parts ! i" _ intSize] True d show ?thesis
      by (auto simp: versionNumber_def versionComponent_def split: option.splits)
  next
    case (Some v)
    with decimalInteger_Atoi [OF Some] True d show ?thesis
      by (simp add: versionNumber_def versionComponent_def)
  qed
qed

lemma compareLoop_triples:
  assumes "versionComponent n p 0 = Some a0" "versionComponent n p (Suc 0) = Some a1"
    "versionComponent n p 2 = Some a2"
    and "versionComponent n q 0 = Some b0" "versionComponent n q (Suc 0) = Some b1"
    "versionComponent n q 2 = Some b2"
  shows "compareLoop n 0 p q =
     (versionLess (a0, a1, a2) (b0, b1, b2), versionLess (b0, b1, b2) (a0, a1, a2), None)"
proof -
  have l3: "compareLoop n 3 p q = (False, False, None)"
    by (simp add: compareLoop.simps)
  have l2: "compareLoop n 2 p q = (a2 < b2, b2 < a2, None)"
    using assms l3 by (subst compareLoop.simps) (auto simp: numeral_3_eq_3 numeral_2_eq_2)
  have l1: "compareLoop n (Suc 0) p q =
      (a1 < b1 \<or> (a1 = b1 \<and> a2 < b2), b1 < a1 \<or> (b1 = a1 \<and> b2 < a2), None)"
    using assms l2 by (subst compareLoop.simps) (auto simp: numeral_2_eq_2)
  show ?thesis
    using assms l1 by (subst compareLoop.simps) auto
qed

text \<open>
  C10, as stated, fails for components that are numeric and pairwise equal but
  too large for the machine integer: the comparison of such a version with
  itself returns an error, on a 64-bit and on a 32-bit platform.
\<close>

theorem compareVersions_out_of_range_counterexample:
  "decimalInteger ''9223372036854775808'' = Some 9223372036854775808
   \<and> decimalInteger ''0'' = Some 0
   \<and> dotted [''9223372036854775808'', ''0'', ''0''] = ''9223372036854775808.0.0''
   \<and> compareVersions 64 ''9223372036854775808.0.0'' ''9223372036854775808.0.0''
       = (False, False, Some (invalid_version_component ''9223372036854775808''))
   \<and> compareVersions 32 ''9223372036854775808.0.0'' ''9223372036854775808.0.0''
       = (False, False, Some (invalid_version_component ''9223372036854775808''))"
  by (simp add: compareVersions_def compareLoop.simps versionComponent_def Atoi_def
      isDigit_def naturalNumeral_def digitOf_def)

text \<open>
  C10, amended. \<^verbatim>\<open>compareVersions\<close> looks at the first three dot-separated
  components only, a missing one counting as \<open>0\<close>. If in both arguments each of
  the first three components that is present is a decimal integer within the
  range of \<^verbatim>\<open>int\<close>, then: equal triples of numbers give (false, false, nil),
  whatever follows the third component; a first argument whose triple is smaller
  at the first place where the two differ gives (true, false, nil); a larger one
  gives (false, true, nil).
\<close>

theorem compareVersions_first_three_components:
  assumes "components1 \<noteq> []" and "\<forall>c \<in> set components1. CHR ''.'' \<notin> set c"
    and "components2 \<noteq> []" and "\<forall>c \<in> set components2. CHR ''.'' \<notin> set c"
    and "versionNumber intSize components1 0 = Some a0"
    and "versionNumber intSize components1 1 = Some a1"
    and "versionNumber intSize components1 2 = Some a2"
    and "versionNumber intSize components2 0 = Some b0"
    and "versionNumber intSize components2 1 = Some b1"
    and "versionNumber intSize components2 2 = Some b2"
  shows "((a0, a1, a2) = (b0, b1, b2) \<longrightarrow>
            compareVersions intSize (dotted components1) (dotted components2) = (False, False, None))
       \<and> (versionLess (a0, a1, a2) (b0, b1, b2) \<longrightarrow>
            compareVersions intSize (dotted components1) (dotted components2) = (True, False, None))
       \<and> (versionLess (b0, b1, b2) (a0, a1, a2) \<longrightarrow>
            compareVersions intSize (dotted components1) (dotted components2) = (False, True, None))"
proof -
  have "compareVersions intSize (dotted components1) (dotted components2) =
      (versionLess (a0, a1, a2) (b0, b1, b2), versionLess (b0, b1, b2) (a0, a1, a2), None)"
    using compareLoop_triples [of intSize components1 a0 a1 a2 components2 b0 b1 b2]
      assms(1,3) assms(5-10)
    by (simp add: compareVersions_def versionComponent_versionNumber
        Split_dotted [OF assms(1,2)] Split_dotted [OF assms(3,4)])
  then show ?thesis by auto
qed


theorem compareVersions_first_three_components_witness:
  "compareVersions 64 ''2.6'' ''2.6.0.7'' = (False, False, None)
   \<and> compareVersions 64 ''2.6'' ''2.6.1'' = (True, False, None)
   \<and> compareVersions 32 ''2.10.0'' ''2.2.0'' = (False, True, None)"
proof -
  have n: "versionNumber 64 [''2'', ''6''] 0 = Some 2"
    "versionNumber 64 [''2'', ''6''] 1 = Some 6"
    "versionNumber 64 [''2'', ''6''] 2 = Some 0"
    "versionNumber 64 [''2'', ''6'', ''0'', ''7''] 0 = Some 2"
    "versionNumber 64 [''2'', ''6'', ''0'', ''7''] 1 = Some 6"
    "versionNumber 64 [''2'', ''6'', ''0'', ''7''] 2 = Some 0"
    "versionNumber 64 [''2'', ''6'', ''1''] 0 = Some 2"
    "versionNumber 64 [''2'', ''6'', ''1''] 1 = Some 6"
    "versionNumber 64 [''2'', ''6'', ''1''] 2 = Some 1"
    "versionNumber 32 [''2'', ''10'', ''0''] 0 = Some 2"
    "versionNumber 32 [''2'', ''10'', ''0''] 1 = Some 10"
    "versionNumber 32 [''2'', ''10'', ''0''] 2 = Some 0"
    "versionNumber 32 [''2'', ''2'', ''0''] 0 = Some 2"
    "versionNumber 32 [''2'', ''2'', ''0''] 1 = Some 2"
    "versionNumber 32 [''2'', ''2'', ''0''] 2 = Some 0"
    by (simp_all add: versionNumber_def naturalNumeral_def digitOf_def fitsInt_def)
  have equal: "compareVersions 64 (dotted [''2'', ''6'']) (dotted [''2'', ''6'', ''0'', ''7''])
      = (False, False, None)"
    using compareVersions_first_three_components
      [of "[''2'', ''6'']" "[''2'', ''6'', ''0'', ''7'']" 64, OF _ _ _ _ n(1-6)]
    by simp
  have smaller: "compareVersions 64 (dotted [''2'', ''6'']) (dotted [''2'', ''6'', ''1''])
      = (True, False, None)"
    using compareVersions_first_three_components
      [of "[''2'', ''6'']" "[''2'', ''6'', ''1'']" 64, OF _ _ _ _ n(1-3) n(7-9)]
    by simp
  have larger: "compareVersions 32 (dotted [''2'', ''10'', ''0'']) (dotted [''2'', ''2'', ''0''])
      = (False, True, None)"
    using compareVersions_first_three_components
      [of "[''2'', ''10'', ''0'']" "[''2'', ''2'', ''0'']" 32, OF _ _ _ _ n(10-15)]
    by simp
  from equal smaller larger show ?thesis by simp
qed

text \<open>
  The cases of \<^verbatim>\<open>TestCompareVersions\<close>, evaluated on the model: the expected
  flags, and an error exactly where the test expects one.
\<close>

lemma compareVersions_test_table:
  "compareVersions 64 ''2.6.0'' ''2.6.0'' = (False, False, None)"
  "compareVersions 64 ''1.0.0'' ''2.0.0'' = (True, False, None)"
  "compareVersions 64 ''3.0.0'' ''2.0.0'' = (False, True, None)"
  "compareVersions 64 ''2.5.0'' ''2.6.0'' = (True, False, None)"
  "compareVersions 64 ''2.7.0'' ''2.6.0'' = (False, True, None)"
  "compareVersions 64 ''2.6.1'' ''2.6.2'' = (True, False, None)"
  "compareVersions 64 ''2.6.3'' ''2.6.2'' = (False, True, None)"
  "compareVersions 64 ''2.2.0'' ''2.10.0'' = (True, False, None)"
  "compareVersions 64 ''2.10.0'' ''2.2.0'' = (False, True, None)"
  "compareVersions 64 ''2.6'' ''2.6.0'' = (False, False, None)"
  "compareVersions 64 ''2.6'' ''2.6.1'' = (True, False, None)"
  "compareVersions 64 ''2.6.1'' ''2.6'' = (False, True, None)"
  "compareVersions 64 ''2.a.0'' ''2.6.0'' = (False, False, Some (invalid_version_component ''a''))"
  "compareVersions 64 ''2.6.0'' ''2.b.0'' = (False, False, Some (invalid_version_component ''b''))"
  "compareVersions 64 [] ''2.6.0'' = (False, False, Some (invalid_version_component []))"
  by (simp_all add: compareVersions_def compareLoop.simps versionComponent_def Atoi_def
      isDigit_def)


end
